theory Spec2Isabelle
  imports Complex_Main "HOL-Library.Sublist"
begin

section \<open>Band classifier\<close>

text \<open>
  \<^verbatim>\<open>BAND_ORDER\<close> and \<^verbatim>\<open>get_rate_band\<close> of \<^verbatim>\<open>app_unified.py\<close>. Bands are the strings
  the program uses; the lowest and the top band are spelled with a blank
  (\<^verbatim>\<open>"< 10"\<close>, \<^verbatim>\<open>"> 30"\<close>). Rates are floats in the program; they are modelled as
  reals, on which comparison is what float comparison is for every rate that is
  a number.
\<close>

definition BAND_ORDER :: "string list" where
  "BAND_ORDER = [''< 10'', ''10-15'', ''15-20'', ''20-25'', ''25-30'', ''> 30'']"

definition get_rate_band :: "real \<Rightarrow> string" where
  "get_rate_band rate =
     (if rate < 10 then ''< 10''
      else if rate < 15 then ''10-15''
      else if rate < 20 then ''15-20''
      else if rate < 25 then ''20-25''
      else if rate < 30 then ''25-30''
      else ''> 30'')"

section \<open>Active-band toggle\<close>

text \<open>
  \<^verbatim>\<open>triggered.replace("legend-", "")\<close>: every occurrence of the first string is
  removed, scanning from the left; an empty pattern leaves the string as it is.
\<close>

function str_remove :: "string \<Rightarrow> string \<Rightarrow> string" where
  "str_remove old s =
     (if old = [] \<or> s = [] then s
      else if prefix old s then str_remove old (drop (length old) s)
      else hd s # str_remove old (tl s))"
  by pat_completeness auto
termination
  by (relation "measure (\<lambda>(old, s). length s)") auto

text \<open>The component id \<^verbatim>\<open>f"legend-{band}"\<close> of a legend entry.\<close>

definition legend_id :: "string \<Rightarrow> string" where
  "legend_id band = ''legend-'' @ band"

text \<open>
  \<^verbatim>\<open>toggle_band\<close>: the first argument is \<^verbatim>\<open>ctx.triggered_id\<close> (\<open>None\<close> when nothing
  triggered the callback), the second the stored list of active bands.
\<close>

definition toggle_band :: "string option \<Rightarrow> string list \<Rightarrow> string list" where
  "toggle_band triggered current_bands =
     (case triggered of
        None \<Rightarrow> current_bands
      | Some t \<Rightarrow>
          if t = [] then current_bands
          else
            (let band = str_remove ''legend-'' t in
             if band \<in> set current_bands then
               (if length current_bands > 1
                then filter (\<lambda>b. b \<noteq> band) current_bands
                else current_bands)
             else current_bands @ [band]))"

text \<open>A sequence of legend clicks, applied from the left.\<close>

fun toggle_all :: "string list \<Rightarrow> string list \<Rightarrow> string list" where
  "toggle_all [] current_bands = current_bands"
| "toggle_all (b # bs) current_bands =
     toggle_all bs (toggle_band (Some (legend_id b)) current_bands)"

section \<open>Animation clock\<close>

text \<open>
  \<^verbatim>\<open>advance_year\<close>: \<open>n_intervals\<close> is the tick counter of the interval component
  (\<open>None\<close> before the first tick), \<open>is_disabled\<close> says that the clock is stopped.
\<close>

definition advance_year :: "nat option \<Rightarrow> int \<Rightarrow> bool \<Rightarrow> int" where
  "advance_year n_intervals current_year is_disabled =
     (if is_disabled \<or> n_intervals = None then current_year
      else if current_year \<ge> 2023 then 2000 else current_year + 1)"

section \<open>Dataset and reference tables\<close>

text \<open>
  One row of the long-format table \<^verbatim>\<open>df_suicide_focus\<close> that
  \<^verbatim>\<open>load_suicide_rates\<close> builds: state, year, rate, region, abbreviation. The
  column \<^verbatim>\<open>Rate_Band\<close> is computed from the rate by \<^verbatim>\<open>get_rate_band\<close> when the
  table is loaded. The table itself comes from a CSV file and is a parameter
  \<open>df\<close> of every derivation below.
\<close>

record rate_record =
  State :: string
  Year :: int
  Rate :: real
  Region :: string
  Abbrev :: string

definition Rate_Band :: "rate_record \<Rightarrow> string" where
  "Rate_Band row = get_rate_band (Rate row)"

text \<open>
  The dictionary \<^verbatim>\<open>STATE_ABBREV\<close> in the order of the source, and its inverse
  \<^verbatim>\<open>ABBREV_TO_STATE = {v: k for k, v in STATE_ABBREV.items()}\<close>, in which a later
  entry would replace an earlier one with the same abbreviation.
\<close>

definition STATE_ABBREV :: "(string \<times> string) list" where
  "STATE_ABBREV =
    [(''Alabama'', ''AL''), (''Alaska'', ''AK''), (''Arizona'', ''AZ''),
     (''Arkansas'', ''AR''), (''California'', ''CA''), (''Colorado'', ''CO''),
     (''Connecticut'', ''CT''), (''Delaware'', ''DE''), (''District of Columbia'', ''DC''),
     (''Florida'', ''FL''), (''Georgia'', ''GA''), (''Hawaii'', ''HI''),
     (''Idaho'', ''ID''), (''Illinois'', ''IL''), (''Indiana'', ''IN''),
     (''Iowa'', ''IA''), (''Kansas'', ''KS''), (''Kentucky'', ''KY''),
     (''Louisiana'', ''LA''), (''Maine'', ''ME''), (''Maryland'', ''MD''),
     (''Massachusetts'', ''MA''), (''Michigan'', ''MI''), (''Minnesota'', ''MN''),
     (''Mississippi'', ''MS''), (''Missouri'', ''MO''), (''Montana'', ''MT''),
     (''Nebraska'', ''NE''), (''Nevada'', ''NV''), (''New Hampshire'', ''NH''),
     (''New Jersey'', ''NJ''), (''New Mexico'', ''NM''), (''New York'', ''NY''),
     (''North Carolina'', ''NC''), (''North Dakota'', ''ND''), (''Ohio'', ''OH''),
     (''Oklahoma'', ''OK''), (''Oregon'', ''OR''), (''Pennsylvania'', ''PA''),
     (''Rhode Island'', ''RI''), (''South Carolina'', ''SC''), (''South Dakota'', ''SD''),
     (''Tennessee'', ''TN''), (''Texas'', ''TX''), (''Utah'', ''UT''),
     (''Vermont'', ''VT''), (''Virginia'', ''VA''), (''Washington'', ''WA''),
     (''West Virginia'', ''WV''), (''Wisconsin'', ''WI''), (''Wyoming'', ''WY'')]"

definition ABBREV_TO_STATE :: "string \<rightharpoonup> string" where
  "ABBREV_TO_STATE = map_of (rev (map (\<lambda>(k, v). (v, k)) STATE_ABBREV))"

section \<open>Strings\<close>

text \<open>\<^verbatim>\<open>sub in s\<close> for strings.\<close>

fun str_contains :: "string \<Rightarrow> string \<Rightarrow> bool" where
  "str_contains sub [] = (sub = [])"
| "str_contains sub (c # cs) = (prefix sub (c # cs) \<or> str_contains sub cs)"

text \<open>\<^verbatim>\<open>s.split(sep)[0]\<close> for a non-empty separator: the part of \<open>s\<close> before the
  first occurrence of \<open>sep\<close>, all of \<open>s\<close> if there is none.\<close>

fun split_head :: "string \<Rightarrow> string \<Rightarrow> string" where
  "split_head sep [] = []"
| "split_head sep (c # cs) = (if prefix sep (c # cs) then [] else c # split_head sep cs)"

text \<open>\<^verbatim>\<open>str\<close> of an integer, as the f-strings print it.\<close>

fun str_nat :: "nat \<Rightarrow> string" where
  "str_nat n =
     (if n < 10 then [''0123456789'' ! n]
      else str_nat (n div 10) @ [''0123456789'' ! (n mod 10)])"

definition str_int :: "int \<Rightarrow> string" where
  "str_int i = (if i < 0 then ''-'' @ str_nat (nat (- i)) else str_nat (nat i))"

section \<open>Selection resolution\<close>

text \<open>
  The first point of a click payload: \<^verbatim>\<open>point.get("customdata")\<close>,
  \<^verbatim>\<open>point.get("text", "")\<close> and \<^verbatim>\<open>point.get("location")\<close>; \<open>None\<close> stands for a
  missing key. Custom data is taken to be a list of strings.
\<close>

record point =
  point_customdata :: "string list option"
  point_text :: "string option"
  point_location :: "string option"

datatype error = IndexError | AllNaNError

text \<open>
  \<^verbatim>\<open>handle_state_click\<close>: \<open>triggered\<close> is \<^verbatim>\<open>ctx.triggered_id\<close>, \<open>map_click\<close> the
  \<^verbatim>\<open>clickData\<close> of the map (\<open>None\<close>, or the list under its key \<^verbatim>\<open>"points"\<close>),
  \<open>current_state\<close> the stored selection. Reading the first point of an empty
  list raises \<^verbatim>\<open>IndexError\<close>.
\<close>

definition handle_state_click ::
  "string option \<Rightarrow> point list option \<Rightarrow> string option \<Rightarrow> error + string option" where
  "handle_state_click triggered map_click current_state =
     (let click_data = (if triggered = Some ''choropleth-map'' then map_click else None) in
      case click_data of
        None \<Rightarrow> Inr current_state
      | Some [] \<Rightarrow> Inl IndexError
      | Some (pt # _) \<Rightarrow>
          (case point_customdata pt of
             Some (c # _) \<Rightarrow> Inr (Some c)
           | _ \<Rightarrow>
              (let text = (case point_text pt of None \<Rightarrow> [] | Some t \<Rightarrow> t);
                   state_name = split_head ''<br>'' text
               in if str_contains ''<br>'' text \<and> map_of STATE_ABBREV state_name \<noteq> None
                  then Inr (Some state_name)
                  else
                    (case point_location pt of
                       None \<Rightarrow> Inr current_state
                     | Some loc \<Rightarrow>
                         if loc \<noteq> [] \<and> ABBREV_TO_STATE loc \<noteq> None
                         then Inr (ABBREV_TO_STATE loc)
                         else Inr current_state))))"

section \<open>Rank derivation\<close>

text \<open>
  \<^verbatim>\<open>Series.rank(ascending=False)\<close> with the default method \<^verbatim>\<open>average\<close>: the values
  are put in descending order and numbered from 1; a value gets the average of
  the numbers of all entries equal to it.
\<close>

definition rank_desc :: "real list \<Rightarrow> real list" where
  "rank_desc vals =
     (let s = rev (sort vals) in
      map (\<lambda>x. let pos = [p. (p, y) \<leftarrow> zip [1..<Suc (length s)] s, y = x]
                in real (sum_list pos) / real (length pos)) vals)"

text \<open>\<^verbatim>\<open>astype(int)\<close> on a float: the fractional part is cut off.\<close>

definition astype_int :: "real \<Rightarrow> int" where
  "astype_int x = (if x < 0 then - \<lfloor>- x\<rfloor> else \<lfloor>x\<rfloor>)"

text \<open>
  \<^verbatim>\<open>update_ranking\<close>. A selection that is \<open>None\<close> or the empty string is not a
  selection (\<^verbatim>\<open>if not state_name\<close>).
\<close>

definition update_ranking :: "rate_record list \<Rightarrow> string option \<Rightarrow> int \<Rightarrow> string" where
  "update_ranking df state_name year =
     (case state_name of
        None \<Rightarrow> []
      | Some s \<Rightarrow>
          if s = [] then []
          else
            (let df_year = filter (\<lambda>row. Year row = year) df;
                 Rank = map astype_int (rank_desc (map Rate df_year));
                 rank = map snd (filter (\<lambda>(row, r). State row = s) (zip df_year Rank))
             in case rank of
                  r # _ \<Rightarrow> ''Rank in '' @ str_int year @ '': #'' @ str_int r
                             @ '' of '' @ str_int (int (length df_year))
                | [] \<Rightarrow> []))"

section \<open>Map view derivation\<close>

text \<open>
  A choropleth trace of the figure, with the attributes that decide what a
  hover shows: the locations, the hover text of each location, whether the
  trace is drawn, and its \<^verbatim>\<open>hoverinfo\<close>.
\<close>

record trace =
  trace_name :: string
  trace_locations :: "string list"
  trace_text :: "string list"
  trace_visible :: bool
  trace_hoverinfo :: string

text \<open>
  The hover text of a row in its band trace. \<open>fmt\<close> stands for the float
  formatting \<^verbatim>\<open>{:.1f}\<close>.
\<close>

definition hover_label :: "(real \<Rightarrow> string) \<Rightarrow> rate_record \<Rightarrow> string" where
  "hover_label fmt row =
     State row @ ''<br>Rate: '' @ fmt (Rate row) @ '' per 100k<br>Region: '' @ Region row"

text \<open>
  \<^verbatim>\<open>update_map\<close>: one trace per band in \<^verbatim>\<open>BAND_ORDER\<close>, visible when the band is
  active; one trace named \<^verbatim>\<open>Filtered\<close> over the rows whose band is not active,
  if there are any; and the outline of the selected state, which takes no part
  in hovering. The text labels and leader lines (scatter traces without
  locations, all with \<^verbatim>\<open>hoverinfo="skip"\<close>) and the layout are left out.
\<close>

definition update_map ::
  "(real \<Rightarrow> string) \<Rightarrow> rate_record list \<Rightarrow> int \<Rightarrow> string list \<Rightarrow> string option \<Rightarrow> trace list" where
  "update_map fmt df year active_bands selected_state =
     (let df_year = filter (\<lambda>row. Year row = year) df;
          band_traces =
            map (\<lambda>band.
                  let df_band = filter (\<lambda>row. Rate_Band row = band) df_year;
                      is_active = (band \<in> set active_bands)
                  in \<lparr>trace_name = band,
                      trace_locations = map Abbrev df_band,
                      trace_text = map (hover_label fmt) df_band,
                      trace_visible = is_active,
                      trace_hoverinfo = ''text''\<rparr>) BAND_ORDER;
          df_inactive = filter (\<lambda>row. Rate_Band row \<notin> set active_bands) df_year;
          filtered =
            (if length df_inactive > 0
             then [\<lparr>trace_name = ''Filtered'',
                    trace_locations = map Abbrev df_inactive,
                    trace_text = map (\<lambda>row. State row @ '' (filtered)'') df_inactive,
                    trace_visible = True,
                    trace_hoverinfo = ''text''\<rparr>]
             else []);
          outline =
            (case selected_state of
               None \<Rightarrow> []
             | Some s \<Rightarrow>
                 (case (if s = [] then None else map_of STATE_ABBREV s) of
                    None \<Rightarrow> []
                  | Some abbrev \<Rightarrow>
                      [\<lparr>trace_name = [],
                        trace_locations = [abbrev],
                        trace_text = [],
                        trace_visible = True,
                        trace_hoverinfo = ''skip''\<rparr>]))
      in band_traces @ filtered @ outline)"

text \<open>
  What hovering over a location shows: the texts that the drawn traces with
  \<^verbatim>\<open>hoverinfo="text"\<close> carry for that location.
\<close>

definition hover_texts :: "trace list \<Rightarrow> string \<Rightarrow> string list" where
  "hover_texts fig loc =
     concat (map (\<lambda>tr. if trace_visible tr \<and> trace_hoverinfo tr = ''text''
                        then [t. (l, t) \<leftarrow> zip (trace_locations tr) (trace_text tr), l = loc]
                        else []) fig)"

section \<open>Detail stats derivation\<close>

text \<open>
  Floats. A rate is the real number that its float64 entry stands for, and
  comparing two rates is exact. Subtracting floats and averaging them rounds:
  the float64 subtraction (\<open>fsub\<close>) behind \<^verbatim>\<open>Series.diff()\<close> and the float64 mean
  (\<open>fmean\<close>) behind \<^verbatim>\<open>Series.mean()\<close> are parameters of the derivation, so that
  what is proved holds for the arithmetic of the machine.
\<close>

text \<open>
  \<^verbatim>\<open>Series.diff()\<close>: the difference of each entry to the entry before it; the
  first entry has none (NaN, here \<open>None\<close>).
\<close>

fun diff :: "(real \<Rightarrow> real \<Rightarrow> real) \<Rightarrow> real list \<Rightarrow> real option list" where
  "diff fsub [] = []"
| "diff fsub (x # xs) = None # map (\<lambda>(a, b). Some (fsub b a)) (zip (x # xs) xs)"

text \<open>
  \<^verbatim>\<open>Series.idxmax()\<close> and \<^verbatim>\<open>Series.idxmin()\<close>: the position of the first
  occurrence of the maximum (minimum) among the entries that are not NaN,
  together with that value; \<open>None\<close> when there is no such entry.
\<close>

fun idxmax :: "real option list \<Rightarrow> (nat \<times> real) option" where
  "idxmax [] = None"
| "idxmax (None # cs) = map_option (\<lambda>(j, v). (Suc j, v)) (idxmax cs)"
| "idxmax (Some x # cs) =
     (case idxmax cs of
        None \<Rightarrow> Some (0, x)
      | Some (j, v) \<Rightarrow> if v > x then Some (Suc j, v) else Some (0, x))"

fun idxmin :: "real option list \<Rightarrow> (nat \<times> real) option" where
  "idxmin [] = None"
| "idxmin (None # cs) = map_option (\<lambda>(j, v). (Suc j, v)) (idxmin cs)"
| "idxmin (Some x # cs) =
     (case idxmin cs of
        None \<Rightarrow> Some (0, x)
      | Some (j, v) \<Rightarrow> if v < x then Some (Suc j, v) else Some (0, x))"

text \<open>
  The numbers of the detail panel, before they are formatted: minimum and
  maximum rate with their years, mean rate, and the largest increase and
  decrease with the pair of years \<^verbatim>\<open>Year - 1\<close>, \<^verbatim>\<open>Year\<close> printed with them.
\<close>

record state_stats =
  min_rate :: real
  min_year :: int
  max_rate :: real
  max_year :: int
  avg_rate :: real
  inc_change :: real
  inc_from :: int
  inc_to :: int
  dec_change :: real
  dec_from :: int
  dec_to :: int

datatype stats_view = Prompt | NoData string | Details string state_stats

text \<open>
  \<^verbatim>\<open>update_state_stats\<close>. The rows of the state are sorted by year. When the
  column \<^verbatim>\<open>Change\<close> has no entry that is a number, \<^verbatim>\<open>idxmax\<close> has no position
  to give and the row lookup raises (\<open>AllNaNError\<close>).
\<close>

definition update_state_stats ::
  "(real \<Rightarrow> real \<Rightarrow> real) \<Rightarrow> (real list \<Rightarrow> real) \<Rightarrow>
   rate_record list \<Rightarrow> string option \<Rightarrow> error + stats_view" where
  "update_state_stats fsub fmean df state_name =
     (case state_name of
        None \<Rightarrow> Inr Prompt
      | Some s \<Rightarrow>
          if s = [] then Inr Prompt
          else
            (let df_state = sort_key Year (filter (\<lambda>row. State row = s) df) in
             case df_state of
               [] \<Rightarrow> Inr (NoData s)
             | r0 # rs \<Rightarrow>
                 (let rates = map Rate df_state;
                      mn = fold min (map Rate rs) (Rate r0);
                      mx = fold max (map Rate rs) (Rate r0);
                      avg = fmean rates;
                      Change = diff fsub rates
                  in case (idxmin (map Some rates), idxmax (map Some rates),
                           idxmax Change, idxmin Change) of
                       (Some (imin, _), Some (imax, _), Some (iinc, inc), Some (idec, dec)) \<Rightarrow>
                         Inr (Details s
                           \<lparr>min_rate = mn, min_year = Year (df_state ! imin),
                            max_rate = mx, max_year = Year (df_state ! imax),
                            avg_rate = avg,
                            inc_change = inc,
                            inc_from = Year (df_state ! iinc) - 1,
                            inc_to = Year (df_state ! iinc),
                            dec_change = dec,
                            dec_from = Year (df_state ! idec) - 1,
                            dec_to = Year (df_state ! idec)\<rparr>)
                     | _ \<Rightarrow> Inl AllNaNError)))"

section \<open>Properties of the band classifier\<close>

lemma get_rate_band_in_order: "get_rate_band r \<in> set BAND_ORDER"
  by (simp add: get_rate_band_def BAND_ORDER_def)

lemma distinct_BAND_ORDER: "distinct BAND_ORDER"
  by (simp add: BAND_ORDER_def)

section \<open>Properties of the toggle\<close>

declare str_remove.simps [simp del]

lemma str_remove_absent: "c \<notin> set s \<Longrightarrow> str_remove (c # old) s = s"
proof (induction s)
  case Nil
  show ?case by (subst str_remove.simps) simp
next
  case (Cons x xs)
  then have "str_remove (c # old) xs = xs" and "c \<noteq> x" by auto
  then show ?case by (subst str_remove.simps) simp
qed

lemma str_remove_prefix:
  "old \<noteq> [] \<Longrightarrow> str_remove old (old @ s) = str_remove old s"
  by (subst str_remove.simps) (cases s; simp)

lemma str_remove_legend_id:
  "b \<in> set BAND_ORDER \<Longrightarrow> str_remove ''legend-'' (legend_id b) = b"
  unfolding legend_id_def
  by (subst str_remove_prefix, simp, rule str_remove_absent) (auto simp: BAND_ORDER_def)

lemma toggle_band_legend:
  assumes "b \<in> set BAND_ORDER"
  shows "toggle_band (Some (legend_id b)) S =
           (if b \<in> set S
            then (if length S > 1 then filter (\<lambda>c. c \<noteq> b) S else S)
            else S @ [b])"
proof -
  have "legend_id b \<noteq> []" by (simp add: legend_id_def)
  moreover have "str_remove ''legend-'' (legend_id b) = b"
    using assms by (rule str_remove_legend_id)
  ultimately show ?thesis by (simp add: toggle_band_def)
qed

lemma toggle_band_keeps_invariant:
  assumes "b \<in> set BAND_ORDER" and "distinct S" and "S \<noteq> []"
  shows "distinct (toggle_band (Some (legend_id b)) S) \<and>
         toggle_band (Some (legend_id b)) S \<noteq> []"
proof (cases "b \<in> set S \<and> length S > 1")
  case True
  then obtain x y zs where S: "S = x # y # zs"
    by (cases S; cases "tl S"; auto)
  with assms(2) have "x \<noteq> y" by simp
  then have "x \<noteq> b \<or> y \<noteq> b" by auto
  then have "filter (\<lambda>c. c \<noteq> b) S \<noteq> []" unfolding S by auto
  with True assms(1,2) show ?thesis by (simp add: toggle_band_legend)
next
  case False
  with assms show ?thesis by (auto simp: toggle_band_legend)
qed

lemma toggle_all_keeps_invariant:
  "set bs \<subseteq> set BAND_ORDER \<Longrightarrow> distinct S \<Longrightarrow> S \<noteq> [] \<Longrightarrow>
   distinct (toggle_all bs S) \<and> toggle_all bs S \<noteq> []"
proof (induction bs arbitrary: S)
  case Nil
  then show ?case by simp
next
  case (Cons b bs)
  from Cons.prems have "b \<in> set BAND_ORDER" by simp
  then have "distinct (toggle_band (Some (legend_id b)) S) \<and>
             toggle_band (Some (legend_id b)) S \<noteq> []"
    using Cons.prems(2,3) by (rule toggle_band_keeps_invariant)
  with Cons.IH [of "toggle_band (Some (legend_id b)) S"] Cons.prems(1)
  show ?case by simp
qed

section \<open>Properties of selection resolution\<close>

lemma str_contains_split:
  "sep \<noteq> [] \<Longrightarrow> str_contains sep t \<Longrightarrow> \<exists>rest. t = split_head sep t @ sep @ rest"
proof (induction t)
  case Nil
  then show ?case by simp
next
  case (Cons c cs)
  show ?case
  proof (cases "prefix sep (c # cs)")
    case True
    then show ?thesis by (auto simp: prefix_def)
  next
    case False
    with Cons.prems have "str_contains sep cs" by simp
    with Cons.IH Cons.prems(1) obtain rest where "cs = split_head sep cs @ sep @ rest" by blast
    with False show ?thesis by auto
  qed
qed

lemma map_of_rev_swap:
  "map_of (rev (map (\<lambda>(k, v). (v, k)) xs)) l = Some s \<Longrightarrow> (s, l) \<in> set xs"
  by (auto dest!: map_of_SomeD)

lemma ABBREV_TO_STATE_known:
  "ABBREV_TO_STATE loc = Some s \<Longrightarrow> map_of STATE_ABBREV s \<noteq> None"
  unfolding ABBREV_TO_STATE_def
  by (drule map_of_rev_swap) (auto dest: weak_map_of_SomeI)

lemma ABBREV_TO_STATE_unknown:
  "loc \<notin> snd ` set STATE_ABBREV \<Longrightarrow> ABBREV_TO_STATE loc = None"
proof (rule ccontr)
  assume a: "loc \<notin> snd ` set STATE_ABBREV" and "ABBREV_TO_STATE loc \<noteq> None"
  then obtain s where "ABBREV_TO_STATE loc = Some s" by auto
  then have "(s, loc) \<in> set STATE_ABBREV"
    unfolding ABBREV_TO_STATE_def by (rule map_of_rev_swap)
  with a show False by force
qed


lemma no_separator: "CHR ''<'' \<notin> set t \<Longrightarrow> t \<noteq> s @ ''<br>'' @ rest"
  by auto

section \<open>Properties of the rank derivation\<close>

declare str_nat.simps [simp del]

lemma positions_sorted_desc:
  "sorted_wrt (\<ge>) (s :: real list) \<Longrightarrow>
   [p. (p, y) \<leftarrow> zip [k..<k + length s] s, y = x]
     = [k + length (filter (\<lambda>y. y > x) s) ..<
        k + length (filter (\<lambda>y. y > x) s) + length (filter (\<lambda>y. y = x) s)]"
proof (induction s arbitrary: k)
  case Nil
  then show ?case by simp
next
  case (Cons a s)
  have upt: "[k..<k + length (a # s)] = k # [Suc k..<Suc k + length s]"
    by (subst upt_conv_Cons) simp_all
  from Cons.prems have sorted: "sorted_wrt (\<ge>) s" and le: "\<forall>y\<in>set s. y \<le> a" by auto
  note IH = Cons.IH [OF sorted, of "Suc k"]
  consider (gt) "a > x" | (eq) "a = x" | (lt) "a < x" by (rule linorder_cases[of x a]) auto
  then show ?case
  proof cases
    case gt
    then show ?thesis unfolding upt using IH by (simp del: upt_Suc)
  next
    case eq
    with le have "filter (\<lambda>y. y > x) s = []" by (auto simp: filter_empty_conv)
    with eq show ?thesis unfolding upt using IH by (simp add: upt_conv_Cons del: upt_Suc)
  next
    case lt
    with le have "filter (\<lambda>y. y > x) s = []" "filter (\<lambda>y. y = x) s = []"
      by (auto simp: filter_empty_conv)
    with lt show ?thesis unfolding upt using IH by (simp del: upt_Suc)
  qed
qed

lemma length_filter_rev_sort:
  "length (filter P (rev (sort xs))) = length (filter P (xs :: real list))"
proof -
  have "length (filter P (rev (sort xs))) = length (filter P (sort xs))"
    by (simp add: rev_filter [symmetric])
  also have "\<dots> = length (sort (filter P xs))" by (simp add: filter_sort)
  finally show ?thesis by simp
qed

lemma sorted_desc_rev_sort: "sorted_wrt (\<ge>) (rev (sort (xs :: real list)))"
  by (simp add: sorted_wrt_rev)

lemma sum_upt_closed: "2 * sum_list [m..<m + t] = t * (2 * m + t - 1)"
proof (induction t)
  case 0
  then show ?case by simp
next
  case (Suc t)
  have "2 * sum_list [m..<m + Suc t] = 2 * sum_list [m..<m + t] + 2 * (m + t)" by simp
  also have "\<dots> = t * (2 * m + t - 1) + 2 * (m + t)" using Suc.IH by simp
  also have "\<dots> = Suc t * (2 * m + Suc t - 1)" by (cases t) (simp_all add: algebra_simps)
  finally show ?case .
qed

lemma avg_upt_floor:
  assumes "t > 0"
  shows "\<lfloor>real (sum_list [m..<m + t]) / real t\<rfloor> = int (m + (t - 1) div 2)"
proof -
  have "sum_list [m..<m + t] div t = m + (t - 1) div 2"
  proof -
    obtain u where t: "t = Suc u" using assms by (cases t) auto
    have "2 * sum_list [m..<m + t] = t * (2 * m + u)" using sum_upt_closed [of m t] t by simp
    then have s: "2 * sum_list [m..<m + t] = 2 * (t * m) + t * u" by (simp add: algebra_simps)
    have "even (t * u)" using t by simp
    then obtain h where h: "t * u = 2 * h" by (auto elim: evenE)
    with s have sum: "sum_list [m..<m + t] = t * m + h" by simp
    have "h div t = u div 2"
    proof -
      have "2 * h = t * u" using h by simp
      show ?thesis
      proof (cases "even u")
        case True
        then obtain v where "u = 2 * v" by (auto elim: evenE)
        with h have "h = t * v" by simp
        with \<open>u = 2 * v\<close> assms show ?thesis by simp
      next
        case False
        then obtain v where u: "u = 2 * v + 1" by (auto elim: oddE)
        with t have "t = 2 * (v + 1)" by simp
        with h u have "h = (v + 1) * (2 * v + 1)" by simp
        then have "h = t * v + (v + 1)" using \<open>t = 2 * (v + 1)\<close> by (simp add: algebra_simps)
        moreover have "v + 1 < t" using \<open>t = 2 * (v + 1)\<close> by simp
        moreover have "t \<noteq> 0" using assms by simp
        ultimately have "h div t = v"
          using div_mult_self4 [of t v "v + 1"] by simp
        with u show ?thesis by simp
      qed
    qed
    then have hdiv: "h div t = (t - 1) div 2" using t by simp
    have "sum_list [m..<m + t] div t = (t * m + h) div t" by (simp only: sum)
    also have "\<dots> = m + h div t" using div_mult_self4 [of t m h] assms by simp
    finally show ?thesis by (simp only: hdiv)
  qed
  then show ?thesis by (simp only: floor_divide_of_nat_eq)
qed

lemma astype_rank_desc:
  "map astype_int (rank_desc vals)
     = map (\<lambda>x. 1 + int (length (filter (\<lambda>y. y > x) vals))
                   + int ((length (filter (\<lambda>y. y = x) vals) - 1) div 2)) vals"
proof -
  let ?s = "rev (sort vals)"
  let ?rank_of = "\<lambda>x. 1 + int (length (filter (\<lambda>y. y > x) vals))
                   + int ((length (filter (\<lambda>y. y = x) vals) - 1) div 2)"
  have "astype_int (let pos = [p. (p, y) \<leftarrow> zip [1..<Suc (length ?s)] ?s, y = x]
                    in real (sum_list pos) / real (length pos)) = ?rank_of x"
    if x: "x \<in> set vals" for x
  proof -
    let ?g = "length (filter (\<lambda>y. y > x) vals)"
    let ?t = "length (filter (\<lambda>y. y = x) vals)"
    have "filter (\<lambda>y. y = x) vals \<noteq> []" using x by (auto simp: filter_empty_conv)
    then have t: "?t > 0" by simp
    have "[p. (p, y) \<leftarrow> zip [1..<Suc (length ?s)] ?s, y = x]
            = [p. (p, y) \<leftarrow> zip [1..<1 + length ?s] ?s, y = x]" by simp
    also have "\<dots> = [1 + ?g ..< 1 + ?g + ?t]"
      using positions_sorted_desc [where s = "rev (sort vals)" and k = 1 and x = x,
              OF sorted_desc_rev_sort]
      by (simp only: length_filter_rev_sort)
    finally have pos: "[p. (p, y) \<leftarrow> zip [1..<Suc (length ?s)] ?s, y = x]
                         = [1 + ?g ..< 1 + ?g + ?t]" .
    have len: "length [1 + ?g ..< 1 + ?g + ?t] = ?t"
      by (simp only: length_upt diff_add_inverse)
    have fl: "\<lfloor>real (sum_list [1 + ?g ..< 1 + ?g + ?t]) / real ?t\<rfloor>
                = int (1 + ?g + (?t - 1) div 2)"
      using t by (rule avg_upt_floor)
    have nonneg: "\<not> real (sum_list [1 + ?g ..< 1 + ?g + ?t]) / real ?t < 0"
      by (simp add: not_less)
    show ?thesis
      unfolding Let_def pos len astype_int_def
      using nonneg fl by (simp only: if_False)
  qed
  then show ?thesis unfolding rank_desc_def Let_def by (simp only: map_map o_def) simp
qed

lemma filter_zip_map:
  "map snd (filter (\<lambda>(row, r). P row) (zip xs (map h xs))) = map h (filter P xs)"
  by (induction xs) auto

lemma update_ranking_eq:
  assumes "s \<noteq> []"
  shows "update_ranking df (Some s) year =
     (let df_year = filter (\<lambda>row. Year row = year) df in
      case filter (\<lambda>row. State row = s) df_year of
        [] \<Rightarrow> []
      | r # _ \<Rightarrow>
          ''Rank in '' @ str_int year @ '': #''
          @ str_int (1 + int (length (filter (\<lambda>row. Rate row > Rate r) df_year))
                     + int ((length (filter (\<lambda>row. Rate row = Rate r) df_year) - 1) div 2))
          @ '' of '' @ str_int (int (length df_year)))"
proof -
  define df_year where "df_year = filter (\<lambda>row. Year row = year) df"
  define h where "h = (\<lambda>x. 1 + int (length (filter (\<lambda>y. y > x) (map Rate df_year)))
        + int ((length (filter (\<lambda>y. y = x) (map Rate df_year)) - 1) div 2))"
  have Rank: "map astype_int (rank_desc (map Rate df_year)) = map (h \<circ> Rate) df_year"
    unfolding h_def by (simp only: astype_rank_desc map_map)
  have rank: "map snd (filter (\<lambda>(row, r). State row = s)
                 (zip df_year (map astype_int (rank_desc (map Rate df_year)))))
              = map (h \<circ> Rate) (filter (\<lambda>row. State row = s) df_year)"
    unfolding Rank by (rule filter_zip_map)
  have h: "h (Rate r) = 1 + int (length (filter (\<lambda>row. Rate row > Rate r) df_year))
        + int ((length (filter (\<lambda>row. Rate row = Rate r) df_year) - 1) div 2)"
    for r :: rate_record
    unfolding h_def by (simp add: filter_map o_def)
  show ?thesis
    using assms unfolding update_ranking_def Let_def df_year_def [symmetric]
    by (simp only: rank option.case if_False) (simp add: h split: list.splits)
qed

section \<open>Properties of the map view\<close>

lemma zip_map_select:
  "[t. (l, t) \<leftarrow> zip (map f xs) (map g xs), l = loc] = map g (filter (\<lambda>r. f r = loc) xs)"
  by (induction xs) auto

lemma distinct_map_filter_eq:
  "distinct (map f xs) \<Longrightarrow> x \<in> set xs \<Longrightarrow> filter (\<lambda>r. f r = f x) xs = [x]"
proof (induction xs)
  case Nil
  then show ?case by simp
next
  case (Cons a xs)
  show ?case
  proof (cases "a = x")
    case True
    from Cons.prems(1) have "f a \<notin> f ` set xs" by simp
    have "\<forall>r\<in>set xs. f r \<noteq> f a"
    proof
      fix r assume "r \<in> set xs"
      then have "f r \<in> f ` set xs" by (rule imageI)
      with \<open>f a \<notin> f ` set xs\<close> show "f r \<noteq> f a" by metis
    qed
    then have "filter (\<lambda>r. f r = f a) xs = []" by (simp add: filter_empty_conv)
    with True show ?thesis by simp
  next
    case False
    with Cons.prems have "x \<in> set xs" and "f a \<noteq> f x" by auto
    with Cons.IH Cons.prems(1) show ?thesis by simp
  qed
qed

lemma concat_select_band:
  "distinct bs \<Longrightarrow> x \<in> set bs \<Longrightarrow>
   concat (map (\<lambda>b. if Q b \<and> x = b then [v] else []) bs) = (if Q x then [v] else [])"
  by (induction bs) auto

lemma hover_texts_append:
  "hover_texts (xs @ ys) loc = hover_texts xs loc @ hover_texts ys loc"
  by (simp add: hover_texts_def)

section \<open>Properties of the detail stats\<close>

lemma idxmax_None: "idxmax cs = None \<longleftrightarrow> (\<forall>c\<in>set cs. c = None)"
  by (induction cs rule: idxmax.induct) (auto split: option.splits)

lemma idxmin_None: "idxmin cs = None \<longleftrightarrow> (\<forall>c\<in>set cs. c = None)"
  by (induction cs rule: idxmin.induct) (auto split: option.splits)

lemma idxmax_Some:
  "idxmax cs = Some (j, v) \<Longrightarrow>
     j < length cs \<and> cs ! j = Some v \<and>
     (\<forall>k<length cs. \<forall>c. cs ! k = Some c \<longrightarrow> c \<le> v) \<and>
     (\<forall>k<j. \<forall>c. cs ! k = Some c \<longrightarrow> c < v)"
proof (induction cs arbitrary: j v rule: idxmax.induct)
  case 1
  then show ?case by simp
next
  case (2 cs)
  then obtain j' where j: "j = Suc j'" and r: "idxmax cs = Some (j', v)" by auto
  from "2.IH" [OF r] show ?case unfolding j
    by (auto simp: nth_Cons split: nat.splits)
next
  case (3 x cs)
  show ?case
  proof (cases "idxmax cs")
    case None
    then have all: "\<forall>c\<in>set cs. c = None" by (simp add: idxmax_None)
    from None "3.prems" have "j = 0" "v = x" by auto
    moreover have "cs ! k \<noteq> Some c" if "k < length cs" for k c
      using all that by (metis nth_mem option.distinct(1))
    ultimately show ?thesis by (auto simp: nth_Cons split: nat.splits)
  next
    case (Some p)
    obtain j' v' where p: "p = (j', v')" by (cases p)
    note IH = "3.IH" [OF Some [unfolded p]]
    show ?thesis
    proof (cases "v' > x")
      case True
      with Some p "3.prems" have "j = Suc j'" "v = v'" by auto
      with IH True show ?thesis by (auto simp: nth_Cons split: nat.splits)
    next
      case False
      with Some p "3.prems" have "j = 0" "v = x" by auto
      with IH False show ?thesis by (fastforce simp: nth_Cons split: nat.splits)
    qed
  qed
qed

lemma idxmin_Some:
  "idxmin cs = Some (j, v) \<Longrightarrow>
     j < length cs \<and> cs ! j = Some v \<and>
     (\<forall>k<length cs. \<forall>c. cs ! k = Some c \<longrightarrow> v \<le> c) \<and>
     (\<forall>k<j. \<forall>c. cs ! k = Some c \<longrightarrow> v < c)"
proof (induction cs arbitrary: j v rule: idxmin.induct)
  case 1
  then show ?case by simp
next
  case (2 cs)
  then obtain j' where j: "j = Suc j'" and r: "idxmin cs = Some (j', v)" by auto
  from "2.IH" [OF r] show ?case unfolding j
    by (auto simp: nth_Cons split: nat.splits)
next
  case (3 x cs)
  show ?case
  proof (cases "idxmin cs")
    case None
    then have all: "\<forall>c\<in>set cs. c = None" by (simp add: idxmin_None)
    from None "3.prems" have "j = 0" "v = x" by auto
    moreover have "cs ! k \<noteq> Some c" if "k < length cs" for k c
      using all that by (metis nth_mem option.distinct(1))
    ultimately show ?thesis by (auto simp: nth_Cons split: nat.splits)
  next
    case (Some p)
    obtain j' v' where p: "p = (j', v')" by (cases p)
    note IH = "3.IH" [OF Some [unfolded p]]
    show ?thesis
    proof (cases "v' < x")
      case True
      with Some p "3.prems" have "j = Suc j'" "v = v'" by auto
      with IH True show ?thesis by (auto simp: nth_Cons split: nat.splits)
    next
      case False
      with Some p "3.prems" have "j = 0" "v = x" by auto
      with IH False show ?thesis by (fastforce simp: nth_Cons split: nat.splits)
    qed
  qed
qed

lemma length_diff: "length (diff fsub xs) = length xs"
  by (cases xs) simp_all

lemma diff_nth:
  "k < length xs \<Longrightarrow> diff fsub xs ! k = (if k = 0 then None else Some (fsub (xs ! k) (xs ! (k - 1))))"
  by (cases xs; cases k) simp_all


lemma rate_min_row:
  assumes "rates = x # xs"
  shows "\<exists>i. idxmin (map Some rates) = Some (i, rates ! i) \<and> i < length rates \<and>
             fold min xs x = rates ! i \<and>
             (\<forall>j<length rates. rates ! i \<le> rates ! j) \<and>
             (\<forall>j<i. rates ! i < rates ! j)"
proof -
  have "idxmin (map Some rates) \<noteq> None"
    unfolding idxmin_None assms by simp
  then obtain i v where iv: "idxmin (map Some rates) = Some (i, v)" by auto
  note P = idxmin_Some [OF iv]
  from P have i: "i < length rates" and v: "v = rates ! i" by auto
  from P have le: "\<forall>j<length rates. v \<le> rates ! j" by auto
  from P i have lt: "\<forall>j<i. v < rates ! j" by auto
  have "Min (set rates) = v"
  proof (rule Min_eqI)
    show "finite (set rates)" by simp
    show "v \<le> y" if "y \<in> set rates" for y
      using that le by (auto simp: in_set_conv_nth)
    show "v \<in> set rates" using i v by simp
  qed
  then have "fold min xs x = v"
    unfolding assms by (simp only: Min.set_eq_fold)
  with iv i v le lt show ?thesis by auto
qed

lemma rate_max_row:
  assumes "rates = x # xs"
  shows "\<exists>i. idxmax (map Some rates) = Some (i, rates ! i) \<and> i < length rates \<and>
             fold max xs x = rates ! i \<and>
             (\<forall>j<length rates. rates ! j \<le> rates ! i) \<and>
             (\<forall>j<i. rates ! j < rates ! i)"
proof -
  have "idxmax (map Some rates) \<noteq> None"
    unfolding idxmax_None assms by simp
  then obtain i v where iv: "idxmax (map Some rates) = Some (i, v)" by auto
  note P = idxmax_Some [OF iv]
  from P have i: "i < length rates" and v: "v = rates ! i" by auto
  from P have le: "\<forall>j<length rates. rates ! j \<le> v" by auto
  from P i have lt: "\<forall>j<i. rates ! j < v" by auto
  have "Max (set rates) = v"
  proof (rule Max_eqI)
    show "finite (set rates)" by simp
    show "y \<le> v" if "y \<in> set rates" for y
      using that le by (auto simp: in_set_conv_nth)
    show "v \<in> set rates" using i v by simp
  qed
  then have "fold max xs x = v"
    unfolding assms by (simp only: Max.set_eq_fold)
  with iv i v le lt show ?thesis by auto
qed

lemma change_max_row:
  assumes "2 \<le> length rates"
  shows "\<exists>i v. idxmax (diff fsub rates) = Some (i, v) \<and> 0 < i \<and> i < length rates \<and>
             v = fsub (rates ! i) (rates ! (i - 1)) \<and>
             (\<forall>j. 0 < j \<and> j < length rates \<longrightarrow> fsub (rates ! j) (rates ! (j - 1)) \<le> v) \<and>
             (\<forall>j. 0 < j \<and> j < i \<longrightarrow> fsub (rates ! j) (rates ! (j - 1)) < v)"
proof -
  have "diff fsub rates ! 1 \<noteq> None" using assms by (simp add: diff_nth)
  moreover have "diff fsub rates ! 1 \<in> set (diff fsub rates)"
    using assms by (intro nth_mem) (simp add: length_diff)
  ultimately have "idxmax (diff fsub rates) \<noteq> None" by (auto simp: idxmax_None)
  then obtain i v where iv: "idxmax (diff fsub rates) = Some (i, v)" by auto
  note P = idxmax_Some [OF iv, unfolded length_diff]
  from P have i: "i < length rates" and at: "diff fsub rates ! i = Some v" by auto
  from at i have pos: "0 < i" and v: "v = fsub (rates ! i) (rates ! (i - 1))"
    by (auto simp: diff_nth split: if_splits)
  have le: "fsub (rates ! j) (rates ! (j - 1)) \<le> v" if "0 < j" "j < length rates" for j
    using P that by (auto simp: diff_nth)
  have lt: "fsub (rates ! j) (rates ! (j - 1)) < v" if "0 < j" "j < i" for j
    using P that i by (auto simp: diff_nth)
  from iv pos i v le lt show ?thesis by blast
qed

lemma change_min_row:
  assumes "2 \<le> length rates"
  shows "\<exists>i v. idxmin (diff fsub rates) = Some (i, v) \<and> 0 < i \<and> i < length rates \<and>
             v = fsub (rates ! i) (rates ! (i - 1)) \<and>
             (\<forall>j. 0 < j \<and> j < length rates \<longrightarrow> v \<le> fsub (rates ! j) (rates ! (j - 1))) \<and>
             (\<forall>j. 0 < j \<and> j < i \<longrightarrow> v < fsub (rates ! j) (rates ! (j - 1)))"
proof -
  have "diff fsub rates ! 1 \<noteq> None" using assms by (simp add: diff_nth)
  moreover have "diff fsub rates ! 1 \<in> set (diff fsub rates)"
    using assms by (intro nth_mem) (simp add: length_diff)
  ultimately have "idxmin (diff fsub rates) \<noteq> None" by (auto simp: idxmin_None)
  then obtain i v where iv: "idxmin (diff fsub rates) = Some (i, v)" by auto
  note P = idxmin_Some [OF iv, unfolded length_diff]
  from P have i: "i < length rates" and at: "diff fsub rates ! i = Some v" by auto
  from at i have pos: "0 < i" and v: "v = fsub (rates ! i) (rates ! (i - 1))"
    by (auto simp: diff_nth split: if_splits)
  have le: "v \<le> fsub (rates ! j) (rates ! (j - 1))" if "0 < j" "j < length rates" for j
    using P that by (auto simp: diff_nth)
  have lt: "v < fsub (rates ! j) (rates ! (j - 1))" if "0 < j" "j < i" for j
    using P that i by (auto simp: diff_nth)
  from iv pos i v le lt show ?thesis by blast
qed

lemma update_state_stats_consecutive:
  assumes sel: "s \<noteq> []"
    and rows: "rows = sort_key Year (filter (\<lambda>row. State row = s) df)"
    and len: "2 \<le> length rows"
    and consec: "\<forall>i. Suc i < length rows \<longrightarrow> Year (rows ! Suc i) = Year (rows ! i) + 1"
  shows "\<exists>st imin imax iinc idec.
     update_state_stats fsub fmean df (Some s) = Inr (Details s st) \<and>
     imin < length rows \<and>
     min_rate st = Rate (rows ! imin) \<and> min_year st = Year (rows ! imin) \<and>
     (\<forall>j<length rows. min_rate st \<le> Rate (rows ! j)) \<and>
     (\<forall>j<imin. min_rate st < Rate (rows ! j)) \<and>
     imax < length rows \<and>
     max_rate st = Rate (rows ! imax) \<and> max_year st = Year (rows ! imax) \<and>
     (\<forall>j<length rows. Rate (rows ! j) \<le> max_rate st) \<and>
     (\<forall>j<imax. Rate (rows ! j) < max_rate st) \<and>
     avg_rate st = fmean (map Rate rows) \<and>
     0 < iinc \<and> iinc < length rows \<and>
     inc_change st = fsub (Rate (rows ! iinc)) (Rate (rows ! (iinc - 1))) \<and>
     inc_to st = Year (rows ! iinc) \<and> inc_from st = Year (rows ! (iinc - 1)) \<and>
     (\<forall>j. 0 < j \<and> j < length rows \<longrightarrow>
           fsub (Rate (rows ! j)) (Rate (rows ! (j - 1))) \<le> inc_change st) \<and>
     (\<forall>j. 0 < j \<and> j < iinc \<longrightarrow>
           fsub (Rate (rows ! j)) (Rate (rows ! (j - 1))) < inc_change st) \<and>
     0 < idec \<and> idec < length rows \<and>
     dec_change st = fsub (Rate (rows ! idec)) (Rate (rows ! (idec - 1))) \<and>
     dec_to st = Year (rows ! idec) \<and> dec_from st = Year (rows ! (idec - 1)) \<and>
     (\<forall>j. 0 < j \<and> j < length rows \<longrightarrow>
           dec_change st \<le> fsub (Rate (rows ! j)) (Rate (rows ! (j - 1)))) \<and>
     (\<forall>j. 0 < j \<and> j < idec \<longrightarrow>
           dec_change st < fsub (Rate (rows ! j)) (Rate (rows ! (j - 1))))"
proof -
  from len obtain r0 rs where R: "rows = r0 # rs" by (cases rows) auto
  define rates where "rates = map Rate rows"
  have rates: "rates = Rate r0 # map Rate rs" by (simp add: rates_def R)
  have lr: "length rates = length rows" by (simp add: rates_def)
  have nth: "rates ! j = Rate (rows ! j)" if "j < length rows" for j
    using that by (simp add: rates_def)
  have prev: "Year (rows ! (j - 1)) = Year (rows ! j) - 1" if "0 < j" "j < length rows" for j
  proof -
    from that obtain i where "j = Suc i" by (cases j) auto
    with that consec show ?thesis by auto
  qed
  from rate_min_row [OF rates] obtain imin where
    imin: "idxmin (map Some rates) = Some (imin, rates ! imin)" "imin < length rates"
      "fold min (map Rate rs) (Rate r0) = rates ! imin"
      "\<forall>j<length rates. rates ! imin \<le> rates ! j" "\<forall>j<imin. rates ! imin < rates ! j"
    by blast
  from rate_max_row [OF rates] obtain imax where
    imax: "idxmax (map Some rates) = Some (imax, rates ! imax)" "imax < length rates"
      "fold max (map Rate rs) (Rate r0) = rates ! imax"
      "\<forall>j<length rates. rates ! j \<le> rates ! imax" "\<forall>j<imax. rates ! j < rates ! imax"
    by blast
  from len have len2: "2 \<le> length rates" by (simp add: lr)
  from change_max_row [OF len2] obtain iinc vinc where
    iinc: "idxmax (diff fsub rates) = Some (iinc, vinc)" "0 < iinc" "iinc < length rates"
      "vinc = fsub (rates ! iinc) (rates ! (iinc - 1))"
      "\<forall>j. 0 < j \<and> j < length rates \<longrightarrow> fsub (rates ! j) (rates ! (j - 1)) \<le> vinc"
      "\<forall>j. 0 < j \<and> j < iinc \<longrightarrow> fsub (rates ! j) (rates ! (j - 1)) < vinc"
    by blast
  from change_min_row [OF len2] obtain idec vdec where
    idec: "idxmin (diff fsub rates) = Some (idec, vdec)" "0 < idec" "idec < length rates"
      "vdec = fsub (rates ! idec) (rates ! (idec - 1))"
      "\<forall>j. 0 < j \<and> j < length rates \<longrightarrow> vdec \<le> fsub (rates ! j) (rates ! (j - 1))"
      "\<forall>j. 0 < j \<and> j < idec \<longrightarrow> vdec < fsub (rates ! j) (rates ! (j - 1))"
    by blast
  have d: "fsub (rates ! j) (rates ! (j - 1)) = fsub (Rate (rows ! j)) (Rate (rows ! (j - 1)))"
    if "j < length rows" for j
  proof -
    from that have "j - 1 < length rows" by simp
    with that show ?thesis by (simp add: rates_def)
  qed
  have inc_v: "vinc = fsub (Rate (rows ! iinc)) (Rate (rows ! (iinc - 1)))"
    using iinc(3,4) d [of iinc] by (simp add: lr)
  have inc_le: "\<forall>j. 0 < j \<and> j < length rows \<longrightarrow>
           fsub (Rate (rows ! j)) (Rate (rows ! (j - 1))) \<le> vinc"
  proof (intro allI impI)
    fix j assume j: "0 < j \<and> j < length rows"
    with iinc(5) have "fsub (rates ! j) (rates ! (j - 1)) \<le> vinc" by (simp add: lr)
    with j d [of j] show "fsub (Rate (rows ! j)) (Rate (rows ! (j - 1))) \<le> vinc" by simp
  qed
  have inc_lt: "\<forall>j. 0 < j \<and> j < iinc \<longrightarrow>
           fsub (Rate (rows ! j)) (Rate (rows ! (j - 1))) < vinc"
  proof (intro allI impI)
    fix j assume j: "0 < j \<and> j < iinc"
    with iinc(6) have "fsub (rates ! j) (rates ! (j - 1)) < vinc" by simp
    moreover from j iinc(3) have "j < length rows" by (simp add: lr)
    ultimately show "fsub (Rate (rows ! j)) (Rate (rows ! (j - 1))) < vinc" using d [of j] by simp
  qed
  have dec_v: "vdec = fsub (Rate (rows ! idec)) (Rate (rows ! (idec - 1)))"
    using idec(3,4) d [of idec] by (simp add: lr)
  have dec_le: "\<forall>j. 0 < j \<and> j < length rows \<longrightarrow>
           vdec \<le> fsub (Rate (rows ! j)) (Rate (rows ! (j - 1)))"
  proof (intro allI impI)
    fix j assume j: "0 < j \<and> j < length rows"
    with idec(5) have "vdec \<le> fsub (rates ! j) (rates ! (j - 1))" by (simp add: lr)
    with j d [of j] show "vdec \<le> fsub (Rate (rows ! j)) (Rate (rows ! (j - 1)))" by simp
  qed
  have dec_lt: "\<forall>j. 0 < j \<and> j < idec \<longrightarrow>
           vdec < fsub (Rate (rows ! j)) (Rate (rows ! (j - 1)))"
  proof (intro allI impI)
    fix j assume j: "0 < j \<and> j < idec"
    with idec(6) have "vdec < fsub (rates ! j) (rates ! (j - 1))" by simp
    moreover from j idec(3) have "j < length rows" by (simp add: lr)
    ultimately show "vdec < fsub (Rate (rows ! j)) (Rate (rows ! (j - 1)))" using d [of j] by simp
  qed
  have inc_prev: "Year (rows ! (iinc - 1)) = Year (rows ! iinc) - 1"
    using iinc(2,3) by (intro prev) (simp_all add: lr)
  have dec_prev: "Year (rows ! (idec - 1)) = Year (rows ! idec) - 1"
    using idec(2,3) by (intro prev) (simp_all add: lr)
  define st where "st =
     \<lparr>min_rate = rates ! imin, min_year = Year (rows ! imin),
      max_rate = rates ! imax, max_year = Year (rows ! imax),
      avg_rate = fmean rates,
      inc_change = vinc,
      inc_from = Year (rows ! iinc) - 1, inc_to = Year (rows ! iinc),
      dec_change = vdec,
      dec_from = Year (rows ! idec) - 1, dec_to = Year (rows ! idec)\<rparr>"
  have df_state: "sort_key Year (filter (\<lambda>row. State row = s) df) = r0 # rs"
    using rows R by simp
  have fold_rates: "map Rate (r0 # rs) = rates" by (simp add: rates_def R)
  have ev: "update_state_stats fsub fmean df (Some s) = Inr (Details s st)"
    using sel
    by (simp only: update_state_stats_def option.case if_False Let_def df_state
          list.case fold_rates imin(1,3) imax(1,3) iinc(1) idec(1) prod.case st_def R)
  have m1: "imin < length rows"
    using imin(2) by (simp add: lr)
  have m2: "min_rate st = Rate (rows ! imin)"
    using imin(2) by (simp add: st_def lr nth)
  have m3: "min_year st = Year (rows ! imin)"
    by (simp add: st_def)
  have m4: "\<forall>j<length rows. min_rate st \<le> Rate (rows ! j)"
    using imin(2,4) by (simp add: st_def lr nth)
  have m5: "\<forall>j<imin. min_rate st < Rate (rows ! j)"
    using imin(2,5) by (simp add: st_def lr nth)
  have x1: "imax < length rows"
    using imax(2) by (simp add: lr)
  have x2: "max_rate st = Rate (rows ! imax)"
    using imax(2) by (simp add: st_def lr nth)
  have x3: "max_year st = Year (rows ! imax)"
    by (simp add: st_def)
  have x4: "\<forall>j<length rows. Rate (rows ! j) \<le> max_rate st"
    using imax(2,4) by (simp add: st_def lr nth)
  have x5: "\<forall>j<imax. Rate (rows ! j) < max_rate st"
    using imax(2,5) by (simp add: st_def lr nth)
  have a1: "avg_rate st = fmean (map Rate rows)"
    by (simp add: st_def rates_def)
  have i1: "0 < iinc"
    by (rule iinc(2))
  have i2: "iinc < length rows"
    using iinc(3) by (simp add: lr)
  have i3: "inc_change st = fsub (Rate (rows ! iinc)) (Rate (rows ! (iinc - 1)))"
    using inc_v by (simp add: st_def)
  have i4: "inc_to st = Year (rows ! iinc)"
    by (simp add: st_def)
  have i5: "inc_from st = Year (rows ! (iinc - 1))"
    using inc_prev by (simp add: st_def)
  have i6: "\<forall>j. 0 < j \<and> j < length rows \<longrightarrow>
           fsub (Rate (rows ! j)) (Rate (rows ! (j - 1))) \<le> inc_change st"
    using inc_le by (simp add: st_def)
  have i7: "\<forall>j. 0 < j \<and> j < iinc \<longrightarrow>
           fsub (Rate (rows ! j)) (Rate (rows ! (j - 1))) < inc_change st"
    using inc_lt by (simp add: st_def)
  have d1: "0 < idec"
    by (rule idec(2))
  have d2: "idec < length rows"
    using idec(3) by (simp add: lr)
  have d3: "dec_change st = fsub (Rate (rows ! idec)) (Rate (rows ! (idec - 1)))"
    using dec_v by (simp add: st_def)
  have d4: "dec_to st = Year (rows ! idec)"
    by (simp add: st_def)
  have d5: "dec_from st = Year (rows ! (idec - 1))"
    using dec_prev by (simp add: st_def)
  have d6: "\<forall>j. 0 < j \<and> j < length rows \<longrightarrow>
           dec_change st \<le> fsub (Rate (rows ! j)) (Rate (rows ! (j - 1)))"
    using dec_le by (simp add: st_def)
  have d7: "\<forall>j. 0 < j \<and> j < idec \<longrightarrow>
           dec_change st < fsub (Rate (rows ! j)) (Rate (rows ! (j - 1)))"
    using dec_lt by (simp add: st_def)
  note parts = ev m1 m2 m3 m4 m5 x1 x2 x3 x4 x5 a1 i1 i2 i3 i4 i5 i6 i7 d1 d2 d3 d4 d5 d6 d7
  show ?thesis
    by (rule exI [of _ st], rule exI [of _ imin], rule exI [of _ imax],
        rule exI [of _ iinc], rule exI [of _ idec])
       (intro conjI; fact parts)
qed

text \<open>
  A series of three years with the rates 12, 15, 11, read from a table in which
  the rows are not in order and another state occurs: the minimum is 11 in the
  last year, the maximum 15 in the middle year, the largest increase 3 from
  the first to the second year, the largest decrease 4 from the second to the
  third.
\<close>

lemma update_state_stats_three_years:
  "update_state_stats (-) (\<lambda>xs. sum_list xs / real (length xs))
     [\<lparr>State = ''Ohio'', Year = 2001, Rate = 15, Region = ''East North Central'', Abbrev = ''OH''\<rparr>,
      \<lparr>State = ''Utah'', Year = 2000, Rate = 20, Region = ''Mountain'', Abbrev = ''UT''\<rparr>,
      \<lparr>State = ''Ohio'', Year = 2000, Rate = 12, Region = ''East North Central'', Abbrev = ''OH''\<rparr>,
      \<lparr>State = ''Ohio'', Year = 2002, Rate = 11, Region = ''East North Central'', Abbrev = ''OH''\<rparr>]
     (Some ''Ohio'')
   = Inr (Details ''Ohio''
         \<lparr>min_rate = 11, min_year = 2002, max_rate = 15, max_year = 2001,
           avg_rate = 38 / 3,
           inc_change = 3, inc_from = 2000, inc_to = 2001,
           dec_change = - 4, dec_from = 2001, dec_to = 2002\<rparr>)"
  by (simp add: update_state_stats_def)

section \<open>Claims\<close>

text \<open>
  C5. The band classifier is total on the rates and tests the thresholds 10, 15,
  20, 25, 30 in ascending order, the lower bound of each band included and the
  upper bound excluded: a rate is in the lowest band exactly when it is below 10,
  in the band 10-15 exactly when it is at least 10 and below 15, and so on, the
  top band taking every rate from 30 on. Every result is one of the six bands of
  \<open>BAND_ORDER\<close>, which are pairwise different, so the bands partition the rates
  without gap or overlap. In particular 9.99 is in the lowest band, 10 in 10-15,
  29.99 in 25-30 and 30 in the top band. (The program spells the lowest and the
  top band \<^verbatim>\<open>"< 10"\<close> and \<^verbatim>\<open>"> 30"\<close>.)
\<close>

theorem get_rate_band_partition:
  "(get_rate_band r = ''< 10'' \<longleftrightarrow> r < 10) \<and>
   (get_rate_band r = ''10-15'' \<longleftrightarrow> 10 \<le> r \<and> r < 15) \<and>
   (get_rate_band r = ''15-20'' \<longleftrightarrow> 15 \<le> r \<and> r < 20) \<and>
   (get_rate_band r = ''20-25'' \<longleftrightarrow> 20 \<le> r \<and> r < 25) \<and>
   (get_rate_band r = ''25-30'' \<longleftrightarrow> 25 \<le> r \<and> r < 30) \<and>
   (get_rate_band r = ''> 30'' \<longleftrightarrow> 30 \<le> r) \<and>
   get_rate_band r \<in> set BAND_ORDER \<and> distinct BAND_ORDER \<and>
   get_rate_band (999 / 100) = ''< 10'' \<and>
   get_rate_band 10 = ''10-15'' \<and>
   get_rate_band (2999 / 100) = ''25-30'' \<and>
   get_rate_band 30 = ''> 30''"
  by (simp add: get_rate_band_def BAND_ORDER_def)

text \<open>
  C4. Let \<open>S\<close> be a non-empty list of active bands without repetition (a set of
  bands) and \<open>b\<close> one of the six bands. A click on the legend entry of \<open>b\<close>
  removes \<open>b\<close> from \<open>S\<close> if \<open>b\<close> is in \<open>S\<close> and \<open>S\<close> has more than one member,
  leaves \<open>S\<close> as it is if \<open>b\<close> is its only member, and adds \<open>b\<close> if \<open>b\<close> is not
  in \<open>S\<close>; the result is again non-empty and without repetition. So after any
  sequence \<open>bs\<close> of clicks on legend entries, starting from all six bands, the
  list of active bands is not empty.
\<close>

theorem toggle_band_never_empty:
  assumes "b \<in> set BAND_ORDER" and "distinct S" and "S \<noteq> []"
  shows "set (toggle_band (Some (legend_id b)) S) =
           (if b \<in> set S
            then (if card (set S) > 1 then set S - {b} else set S)
            else insert b (set S)) \<and>
         (set S = {b} \<longrightarrow> toggle_band (Some (legend_id b)) S = S) \<and>
         distinct (toggle_band (Some (legend_id b)) S) \<and>
         toggle_band (Some (legend_id b)) S \<noteq> [] \<and>
         (set bs \<subseteq> set BAND_ORDER \<longrightarrow> toggle_all bs BAND_ORDER \<noteq> [])"
proof -
  have card: "card (set S) = length S"
    using assms(2) by (rule distinct_card)
  have "set (toggle_band (Some (legend_id b)) S) =
           (if b \<in> set S
            then (if card (set S) > 1 then set S - {b} else set S)
            else insert b (set S))"
    using assms(1) by (auto simp: toggle_band_legend card)
  moreover have "set S = {b} \<longrightarrow> toggle_band (Some (legend_id b)) S = S"
  proof
    assume sole: "set S = {b}"
    then have "card (set S) = 1" by simp
    with card have "length S = 1" by simp
    with sole assms(1) show "toggle_band (Some (legend_id b)) S = S"
      by (simp add: toggle_band_legend)
  qed
  moreover have "distinct (toggle_band (Some (legend_id b)) S) \<and>
                 toggle_band (Some (legend_id b)) S \<noteq> []"
    using assms by (rule toggle_band_keeps_invariant)
  moreover have "set bs \<subseteq> set BAND_ORDER \<longrightarrow> toggle_all bs BAND_ORDER \<noteq> []"
    using toggle_all_keeps_invariant [of bs BAND_ORDER]
    by (simp add: BAND_ORDER_def)
  ultimately show ?thesis by blast
qed

theorem toggle_band_never_empty_witness:
  "''< 10'' \<in> set BAND_ORDER \<and> distinct [''< 10''] \<and> [''< 10''] \<noteq> ([] :: string list) \<and>
   set [''< 10''] = {''< 10''} \<and>
   set [''10-15'', ''< 10''] \<subseteq> set BAND_ORDER \<and>
   toggle_band (Some (legend_id ''< 10'')) [''< 10''] = [''< 10''] \<and>
   toggle_all [''10-15'', ''< 10''] BAND_ORDER \<noteq> []"
  using toggle_band_never_empty [of "''< 10''" "[''< 10'']" "[''10-15'', ''< 10'']"]
  by (simp add: BAND_ORDER_def)

text \<open>
  C9. Starting from the list of all six bands, a click on the legend entry of a
  band \<open>b\<close> followed by a second click on the same entry gives back the original
  set of active bands. (As a list, \<open>b\<close> has moved to the end.)
\<close>

theorem toggle_band_twice:
  assumes "b \<in> set BAND_ORDER"
  shows "set (toggle_band (Some (legend_id b)) (toggle_band (Some (legend_id b)) BAND_ORDER))
           = set BAND_ORDER \<and>
         toggle_band (Some (legend_id b)) (toggle_band (Some (legend_id b)) BAND_ORDER)
           = filter (\<lambda>c. c \<noteq> b) BAND_ORDER @ [b]"
proof -
  have len: "length BAND_ORDER > 1" by (simp add: BAND_ORDER_def)
  have first: "toggle_band (Some (legend_id b)) BAND_ORDER = filter (\<lambda>c. c \<noteq> b) BAND_ORDER"
    using assms len by (simp add: toggle_band_legend)
  have second: "toggle_band (Some (legend_id b)) (filter (\<lambda>c. c \<noteq> b) BAND_ORDER)
                  = filter (\<lambda>c. c \<noteq> b) BAND_ORDER @ [b]"
    using assms by (simp add: toggle_band_legend)
  from assms have "set (filter (\<lambda>c. c \<noteq> b) BAND_ORDER @ [b]) = set BAND_ORDER"
    by auto
  with first second show ?thesis by simp
qed

theorem toggle_band_twice_witness:
  "''15-20'' \<in> set BAND_ORDER \<and>
   set (toggle_band (Some (legend_id ''15-20''))
          (toggle_band (Some (legend_id ''15-20'')) BAND_ORDER)) = set BAND_ORDER \<and>
   toggle_band (Some (legend_id ''15-20''))
          (toggle_band (Some (legend_id ''15-20'')) BAND_ORDER)
     = [''< 10'', ''10-15'', ''20-25'', ''25-30'', ''> 30'', ''15-20'']"
proof -
  have h: "''15-20'' \<in> set BAND_ORDER" by (simp add: BAND_ORDER_def)
  have f: "filter (\<lambda>c. c \<noteq> ''15-20'') BAND_ORDER @ [''15-20'']
          = [''< 10'', ''10-15'', ''20-25'', ''25-30'', ''> 30'', ''15-20'']"
    by (simp add: BAND_ORDER_def)
  note t = toggle_band_twice [OF h]
  from t have a: "set (toggle_band (Some (legend_id ''15-20''))
          (toggle_band (Some (legend_id ''15-20'')) BAND_ORDER)) = set BAND_ORDER"
    by (rule conjunct1)
  from t have "toggle_band (Some (legend_id ''15-20''))
          (toggle_band (Some (legend_id ''15-20'')) BAND_ORDER)
     = filter (\<lambda>c. c \<noteq> ''15-20'') BAND_ORDER @ [''15-20'']"
    by (rule conjunct2)
  then have b: "toggle_band (Some (legend_id ''15-20''))
          (toggle_band (Some (legend_id ''15-20'')) BAND_ORDER)
     = [''< 10'', ''10-15'', ''20-25'', ''25-30'', ''> 30'', ''15-20'']"
    using f by (rule trans)
  from h a b show ?thesis by blast
qed

text \<open>
  C8. For a selected year between 2000 and 2023, a tick of the running clock
  (the interval is not disabled and has counted a tick) advances the year by
  one, except that 2023 is followed by 2000; the new year is again between 2000
  and 2023. A tick that arrives while the clock is stopped leaves the year as
  it is.
\<close>

theorem advance_year_tick:
  assumes "2000 \<le> y" and "y \<le> 2023"
  shows "advance_year (Some n) y False = (if y = 2023 then 2000 else y + 1) \<and>
         2000 \<le> advance_year (Some n) y False \<and>
         advance_year (Some n) y False \<le> 2023 \<and>
         advance_year k y True = y"
  using assms by (simp add: advance_year_def)

theorem advance_year_tick_witness:
  "(2000::int) \<le> 2023 \<and> (2023::int) \<le> 2023 \<and>
   advance_year (Some 7) 2023 False = 2000 \<and>
   advance_year (Some 7) 2010 False = 2011 \<and>
   advance_year (Some 7) 2010 True = 2010"
  using advance_year_tick [of 2023 7 "Some 7"] advance_year_tick [of 2010 7 "Some 7"]
  by simp

text \<open>
  C7. A click whose first point resolves through none of the three shapes leaves
  the selection as it was: when the point has no custom data (or an empty list),
  its text has no separator \<^verbatim>\<open><br>\<close> with a known state name before it, and its
  location is not a known abbreviation, then \<^verbatim>\<open>handle_state_click\<close> returns the
  prior selection, whatever it is; so it does when there is no click data at all.
\<close>

theorem handle_state_click_unresolved:
  assumes "point_customdata p = None \<or> point_customdata p = Some []"
    and "\<forall>s rest. point_text p = Some (s @ ''<br>'' @ rest) \<longrightarrow> map_of STATE_ABBREV s = None"
    and "\<forall>loc. point_location p = Some loc \<longrightarrow> loc \<notin> snd ` set STATE_ABBREV"
  shows "handle_state_click triggered (Some (p # ps)) current_state = Inr current_state \<and>
         handle_state_click triggered None current_state = Inr current_state"
proof -
  define tx where "tx = (case point_text p of None \<Rightarrow> [] | Some t \<Rightarrow> t)"
  have no_text: "\<not> (str_contains ''<br>'' tx \<and> map_of STATE_ABBREV (split_head ''<br>'' tx) \<noteq> None)"
  proof
    assume a: "str_contains ''<br>'' tx \<and> map_of STATE_ABBREV (split_head ''<br>'' tx) \<noteq> None"
    then obtain rest where r: "tx = split_head ''<br>'' tx @ ''<br>'' @ rest"
      using str_contains_split [of "''<br>''" tx] by auto
    from a have "tx \<noteq> []" by auto
    then have "point_text p = Some tx"
      unfolding tx_def by (cases "point_text p") auto
    with r have "point_text p = Some (split_head ''<br>'' tx @ ''<br>'' @ rest)" by simp
    with assms(2) have "map_of STATE_ABBREV (split_head ''<br>'' tx) = None" by blast
    with a show False by simp
  qed
  have no_loc: "\<And>loc. point_location p = Some loc \<Longrightarrow> ABBREV_TO_STATE loc = None"
    using assms(3) by (simp add: ABBREV_TO_STATE_unknown)
  have "handle_state_click triggered (Some (p # ps)) current_state = Inr current_state"
    using assms(1) no_text no_loc
    by (auto simp: handle_state_click_def tx_def Let_def split: option.splits list.splits)
  moreover have "handle_state_click triggered None current_state = Inr current_state"
    by (simp add: handle_state_click_def)
  ultimately show ?thesis by simp
qed

theorem handle_state_click_unresolved_witness:
  "handle_state_click (Some ''choropleth-map'')
     (Some [\<lparr>point_customdata = None, point_text = Some ''Atlantis (filtered)'',
             point_location = Some ''ZZ''\<rparr>]) (Some ''Texas'') = Inr (Some ''Texas'')"
proof -
  let ?p = "\<lparr>point_customdata = None, point_text = Some ''Atlantis (filtered)'',
             point_location = Some ''ZZ''\<rparr>"
  have h1: "point_customdata ?p = None \<or> point_customdata ?p = Some []" by simp
  have h2: "\<forall>s rest. point_text ?p = Some (s @ ''<br>'' @ rest) \<longrightarrow> map_of STATE_ABBREV s = None"
    using no_separator [of "''Atlantis (filtered)''"] by simp
  have h3: "\<forall>loc. point_location ?p = Some loc \<longrightarrow> loc \<notin> snd ` set STATE_ABBREV"
    by (simp add: STATE_ABBREV_def)
  from handle_state_click_unresolved [OF h1 h2 h3, of "Some ''choropleth-map''" "[]" "Some ''Texas''"]
  show ?thesis by simp
qed

text \<open>
  C3, as stated, fails: a point that carries a non-empty custom data list
  resolves to the first entry of that list, which is not checked against the
  known state names.
\<close>

theorem handle_state_click_customdata_counterexample:
  "handle_state_click (Some ''choropleth-map'')
     (Some [\<lparr>point_customdata = Some [''Atlantis''], point_text = None,
             point_location = None\<rparr>]) None = Inr (Some ''Atlantis'') \<and>
   map_of STATE_ABBREV ''Atlantis'' = None"
  by (simp add: handle_state_click_def STATE_ABBREV_def)

text \<open>
  C3, amended. For a prior selection that is null or a known state name: a click
  whose first point has no custom data (or an empty list) yields null or a known
  state name, and so does a callback without click data; a click whose first
  point has a non-empty custom data list yields the first entry of that list as
  it is.
\<close>

theorem handle_state_click_valid:
  assumes "current_state = None \<or> (\<exists>s. current_state = Some s \<and> map_of STATE_ABBREV s \<noteq> None)"
    and "point_customdata p = None \<or> point_customdata p = Some []"
  shows "(\<exists>r. handle_state_click triggered (Some (p # ps)) current_state = Inr r \<and>
              (r = None \<or> (\<exists>s. r = Some s \<and> map_of STATE_ABBREV s \<noteq> None))) \<and>
         handle_state_click triggered None current_state = Inr current_state \<and>
         (point_customdata q = Some (c # cs) \<longrightarrow>
            handle_state_click (Some ''choropleth-map'') (Some (q # qs)) current_state
              = Inr (Some c))"
proof -
  have "\<exists>r. handle_state_click triggered (Some (p # ps)) current_state = Inr r \<and>
              (r = None \<or> (\<exists>s. r = Some s \<and> map_of STATE_ABBREV s \<noteq> None))"
    using assms
    by (auto simp: handle_state_click_def Let_def dest: ABBREV_TO_STATE_known
             split: option.splits list.splits)
  moreover have "handle_state_click triggered None current_state = Inr current_state"
    by (simp add: handle_state_click_def)
  moreover have "point_customdata q = Some (c # cs) \<longrightarrow>
            handle_state_click (Some ''choropleth-map'') (Some (q # qs)) current_state
              = Inr (Some c)"
    by (simp add: handle_state_click_def)
  ultimately show ?thesis by blast
qed

theorem handle_state_click_valid_witness:
  "handle_state_click (Some ''choropleth-map'')
     (Some [\<lparr>point_customdata = Some [], point_text = Some ''Ohio<br>Rate: 14.1'',
             point_location = Some ''ZZ''\<rparr>]) (Some ''Texas'') = Inr (Some ''Ohio'') \<and>
   map_of STATE_ABBREV ''Ohio'' \<noteq> None \<and> map_of STATE_ABBREV ''Texas'' \<noteq> None"
proof -
  let ?p = "\<lparr>point_customdata = Some [], point_text = Some ''Ohio<br>Rate: 14.1'',
             point_location = Some ''ZZ''\<rparr>"
  have tx: "map_of STATE_ABBREV ''Texas'' \<noteq> None" by (simp add: STATE_ABBREV_def)
  have oh: "map_of STATE_ABBREV ''Ohio'' \<noteq> None" by (simp add: STATE_ABBREV_def)
  have h1: "Some ''Texas'' = None \<or> (\<exists>s. Some ''Texas'' = Some s \<and> map_of STATE_ABBREV s \<noteq> None)"
    using tx by simp
  have h2: "point_customdata ?p = None \<or> point_customdata ?p = Some []" by simp
  have run: "handle_state_click (Some ''choropleth-map'') (Some [?p]) (Some ''Texas'')
               = Inr (Some ''Ohio'')"
    using oh by (simp add: handle_state_click_def)
  from handle_state_click_valid [OF h1 h2, of "Some ''choropleth-map''" "[]"] run tx oh
  show ?thesis by simp
qed

text \<open>
  C1, as stated, fails: when three states share the highest rate of a year, no
  state has a strictly greater rate, yet each of them is reported with rank 2,
  not 1 (the average of the places 1, 2, 3).
\<close>

theorem update_ranking_tie_counterexample:
  "update_ranking
     [\<lparr>State = ''Utah'', Year = 2020, Rate = 142 / 10, Region = ''Mountain'', Abbrev = ''UT''\<rparr>,
      \<lparr>State = ''Ohio'', Year = 2020, Rate = 142 / 10, Region = ''East North Central'', Abbrev = ''OH''\<rparr>,
      \<lparr>State = ''Iowa'', Year = 2020, Rate = 142 / 10, Region = ''West North Central'', Abbrev = ''IA''\<rparr>]
     (Some ''Utah'') 2020 = ''Rank in 2020: #2 of 3'' \<and>
   length (filter (\<lambda>row. Rate row > 142 / 10)
     [\<lparr>State = ''Utah'', Year = 2020, Rate = 142 / 10, Region = ''Mountain'', Abbrev = ''UT''\<rparr>,
      \<lparr>State = ''Ohio'', Year = 2020, Rate = 142 / 10, Region = ''East North Central'', Abbrev = ''OH''\<rparr>,
      \<lparr>State = ''Iowa'', Year = 2020, Rate = 142 / 10, Region = ''West North Central'', Abbrev = ''IA''\<rparr>])
     = 0"
  by code_simp

text \<open>
  C1, amended. For a selected state whose first record in the selected year is
  \<open>r\<close>, the rank line reports the descending average rank cut to an integer: 1
  plus the number of records of that year with a strictly greater rate, plus
  half the number of other records of that year with the same rate, rounded
  down. (So a state that shares its rate with no other state, or with exactly
  one, gets 1 plus the number of strictly greater rates.) The reported total is
  the number of records of that year.
\<close>

theorem update_ranking_rank:
  assumes "s \<noteq> []"
    and "filter (\<lambda>row. State row = s) (filter (\<lambda>row. Year row = year) df) = r # rest"
  shows "update_ranking df (Some s) year =
          ''Rank in '' @ str_int year @ '': #''
          @ str_int (1 + int (length (filter (\<lambda>row. Rate row > Rate r)
                                        (filter (\<lambda>row. Year row = year) df)))
                     + int ((length (filter (\<lambda>row. Rate row = Rate r)
                                        (filter (\<lambda>row. Year row = year) df)) - 1) div 2))
          @ '' of '' @ str_int (int (length (filter (\<lambda>row. Year row = year) df)))"
  using assms by (simp add: update_ranking_eq Let_def)

theorem update_ranking_rank_witness:
  "update_ranking
     [\<lparr>State = ''Utah'', Year = 2020, Rate = 201 / 10, Region = ''Mountain'', Abbrev = ''UT''\<rparr>,
      \<lparr>State = ''Ohio'', Year = 2020, Rate = 142 / 10, Region = ''East North Central'', Abbrev = ''OH''\<rparr>,
      \<lparr>State = ''Iowa'', Year = 2020, Rate = 142 / 10, Region = ''West North Central'', Abbrev = ''IA''\<rparr>,
      \<lparr>State = ''Texas'', Year = 2019, Rate = 13, Region = ''West South Central'', Abbrev = ''TX''\<rparr>]
     (Some ''Ohio'') 2020 = ''Rank in 2020: #2 of 3''"
proof -
  let ?oh = "\<lparr>State = ''Ohio'', Year = 2020, Rate = 142 / 10,
               Region = ''East North Central'', Abbrev = ''OH''\<rparr>"
  let ?df = "[\<lparr>State = ''Utah'', Year = 2020, Rate = 201 / 10, Region = ''Mountain'', Abbrev = ''UT''\<rparr>,
      ?oh,
      \<lparr>State = ''Iowa'', Year = 2020, Rate = 142 / 10, Region = ''West North Central'', Abbrev = ''IA''\<rparr>,
      \<lparr>State = ''Texas'', Year = 2019, Rate = 13, Region = ''West South Central'', Abbrev = ''TX''\<rparr>]"
  have h1: "''Ohio'' \<noteq> []" by simp
  have h2: "filter (\<lambda>row. State row = ''Ohio'') (filter (\<lambda>row. Year row = 2020) ?df) = ?oh # []"
    by simp
  have s1: "str_int 2020 = ''2020''" by code_simp
  have s2: "str_int 2 = ''2''" by code_simp
  have s3: "str_int 3 = ''3''" by code_simp
  show ?thesis
    using update_ranking_rank [OF h1 h2] by (simp add: s1 s2 s3)
qed

text \<open>
  C10. For a selected state that has no record in the selected year, the rank
  derivation returns the empty string.
\<close>

theorem update_ranking_no_record:
  assumes "\<forall>row \<in> set df. Year row = year \<longrightarrow> State row \<noteq> s"
  shows "update_ranking df (Some s) year = []"
proof (cases "s = []")
  case True
  then show ?thesis by (simp add: update_ranking_def)
next
  case False
  have "filter (\<lambda>row. State row = s) (filter (\<lambda>row. Year row = year) df) = []"
    using assms by (auto simp: filter_empty_conv)
  with False show ?thesis by (simp add: update_ranking_eq Let_def)
qed

theorem update_ranking_no_record_witness:
  "update_ranking
     [\<lparr>State = ''Utah'', Year = 2020, Rate = 201 / 10, Region = ''Mountain'', Abbrev = ''UT''\<rparr>,
      \<lparr>State = ''Texas'', Year = 2019, Rate = 13, Region = ''West South Central'', Abbrev = ''TX''\<rparr>]
     (Some ''Texas'') 2020 = []"
  using update_ranking_no_record [of
     "[\<lparr>State = ''Utah'', Year = 2020, Rate = 201 / 10, Region = ''Mountain'', Abbrev = ''UT''\<rparr>,
      \<lparr>State = ''Texas'', Year = 2019, Rate = 13, Region = ''West South Central'', Abbrev = ''TX''\<rparr>]"
     2020 "''Texas''"]
  by simp

text \<open>
  C2, as stated, fails: a state whose band is not active lies in a band trace
  that is not drawn, and in the drawn trace \<^verbatim>\<open>Filtered\<close>, whose hover text is the
  state name followed by \<^verbatim>\<open>(filtered)\<close>, without rate and region.
\<close>

theorem update_map_filtered_counterexample:
  "hover_texts
     (update_map (\<lambda>x. ''14.5'')
        [\<lparr>State = ''Texas'', Year = 2023, Rate = 145 / 10,
          Region = ''West South Central'', Abbrev = ''TX''\<rparr>]
        2023 [''< 10''] None) ''TX'' = [''Texas (filtered)'']"
  by (simp add: hover_texts_def update_map_def Rate_Band_def get_rate_band_def BAND_ORDER_def)

text \<open>
  C2, amended. In the map of a year whose records have pairwise different
  abbreviations, hovering over the state of a record of that year shows the
  state name, the rate formatted to one decimal and the region when the band of
  the state is active, and the state name followed by \<^verbatim>\<open>(filtered)\<close> when it is
  not.
\<close>

theorem update_map_hover:
  assumes "row \<in> set df" and "Year row = year"
    and "distinct (map Abbrev (filter (\<lambda>r. Year r = year) df))"
  shows "hover_texts (update_map fmt df year active_bands selected_state) (Abbrev row) =
           (if Rate_Band row \<in> set active_bands
            then [hover_label fmt row]
            else [State row @ '' (filtered)''])"
proof -
  define df_year where "df_year = filter (\<lambda>r. Year r = year) df"
  define loc where "loc = Abbrev row"
  from assms(1,2) have mem: "row \<in> set df_year" by (simp add: df_year_def)
  have only: "filter (\<lambda>r. Abbrev r = loc) df_year = [row]"
    unfolding loc_def using assms(3) mem
    unfolding df_year_def [symmetric] by (rule distinct_map_filter_eq)
  have sel: "filter (\<lambda>r. P r \<and> Abbrev r = loc) df_year = (if P row then [row] else [])" for P
  proof -
    have "filter (\<lambda>r. P r \<and> Abbrev r = loc) df_year
            = filter P (filter (\<lambda>r. Abbrev r = loc) df_year)"
      by (simp add: conj_commute)
    then show ?thesis by (simp add: only)
  qed
  let ?band_trace = "\<lambda>band. \<lparr>trace_name = band,
        trace_locations = map Abbrev (filter (\<lambda>row. Rate_Band row = band) df_year),
        trace_text = map (hover_label fmt) (filter (\<lambda>row. Rate_Band row = band) df_year),
        trace_visible = (band \<in> set active_bands),
        trace_hoverinfo = ''text''\<rparr>"
  have bands: "hover_texts (map ?band_trace BAND_ORDER) loc
                 = (if Rate_Band row \<in> set active_bands then [hover_label fmt row] else [])"
  proof -
    have "hover_texts (map ?band_trace BAND_ORDER) loc
            = concat (map (\<lambda>b. if b \<in> set active_bands \<and> Rate_Band row = b
                                then [hover_label fmt row] else []) BAND_ORDER)"
      unfolding hover_texts_def map_map
      by (rule arg_cong [where f = concat], rule map_cong)
         (auto simp: zip_map_select sel)
    also have "\<dots> = (if Rate_Band row \<in> set active_bands then [hover_label fmt row] else [])"
      using distinct_BAND_ORDER get_rate_band_in_order [of "Rate row"]
      unfolding Rate_Band_def by (rule concat_select_band)
    finally show ?thesis .
  qed
  let ?df_inactive = "filter (\<lambda>row. Rate_Band row \<notin> set active_bands) df_year"
  let ?filtered = "(if length ?df_inactive > 0
             then [\<lparr>trace_name = ''Filtered'',
                    trace_locations = map Abbrev ?df_inactive,
                    trace_text = map (\<lambda>row. State row @ '' (filtered)'') ?df_inactive,
                    trace_visible = True,
                    trace_hoverinfo = ''text''\<rparr>]
             else [])"
  have filtered: "hover_texts ?filtered loc
                    = (if Rate_Band row \<in> set active_bands then []
                       else [State row @ '' (filtered)''])"
  proof (cases "?df_inactive = []")
    case True
    with mem have "Rate_Band row \<in> set active_bands" by (auto simp: filter_empty_conv)
    with True show ?thesis by (simp add: hover_texts_def)
  next
    case False
    then show ?thesis by (simp add: hover_texts_def zip_map_select sel)
  qed
  have outline: "hover_texts (case selected_state of
               None \<Rightarrow> []
             | Some s \<Rightarrow>
                 (case (if s = [] then None else map_of STATE_ABBREV s) of
                    None \<Rightarrow> []
                  | Some abbrev \<Rightarrow>
                      [\<lparr>trace_name = [],
                        trace_locations = [abbrev],
                        trace_text = [],
                        trace_visible = True,
                        trace_hoverinfo = ''skip''\<rparr>])) loc = []"
  proof (cases selected_state)
    case None
    then show ?thesis by (simp add: hover_texts_def)
  next
    case (Some s)
    show ?thesis
      unfolding Some option.case
      by (cases "if s = [] then None else map_of STATE_ABBREV s")
         (simp_all only: option.case, simp_all add: hover_texts_def)
  qed
  show ?thesis
    unfolding update_map_def Let_def df_year_def [symmetric] loc_def [symmetric]
      hover_texts_append bands filtered outline
    by simp
qed

theorem update_map_hover_witness:
  "hover_texts
     (update_map (\<lambda>x. if x = 145 / 10 then ''14.5'' else ''22.1'')
        [\<lparr>State = ''Texas'', Year = 2023, Rate = 145 / 10,
          Region = ''West South Central'', Abbrev = ''TX''\<rparr>,
         \<lparr>State = ''Utah'', Year = 2023, Rate = 221 / 10,
          Region = ''Mountain'', Abbrev = ''UT''\<rparr>]
        2023 [''10-15''] (Some ''Utah'')) ''TX''
     = [''Texas<br>Rate: 14.5 per 100k<br>Region: West South Central''] \<and>
   hover_texts
     (update_map (\<lambda>x. if x = 145 / 10 then ''14.5'' else ''22.1'')
        [\<lparr>State = ''Texas'', Year = 2023, Rate = 145 / 10,
          Region = ''West South Central'', Abbrev = ''TX''\<rparr>,
         \<lparr>State = ''Utah'', Year = 2023, Rate = 221 / 10,
          Region = ''Mountain'', Abbrev = ''UT''\<rparr>]
        2023 [''10-15''] (Some ''Utah'')) ''UT''
     = [''Utah (filtered)'']"
proof -
  let ?tx = "\<lparr>State = ''Texas'', Year = 2023, Rate = 145 / 10,
               Region = ''West South Central'', Abbrev = ''TX''\<rparr>"
  let ?ut = "\<lparr>State = ''Utah'', Year = 2023, Rate = 221 / 10,
               Region = ''Mountain'', Abbrev = ''UT''\<rparr>"
  let ?fmt = "\<lambda>x::real. if x = 145 / 10 then ''14.5'' else ''22.1''"
  have d: "distinct (map Abbrev (filter (\<lambda>r. Year r = 2023) [?tx, ?ut]))" by simp
  have tx: "?tx \<in> set [?tx, ?ut]" "Year ?tx = 2023" by simp_all
  have ut: "?ut \<in> set [?tx, ?ut]" "Year ?ut = 2023" by simp_all
  show ?thesis
    using update_map_hover [OF tx d, of ?fmt "[''10-15'']" "Some ''Utah''"]
          update_map_hover [OF ut d, of ?fmt "[''10-15'']" "Some ''Utah''"]
    by (simp add: Rate_Band_def get_rate_band_def hover_label_def)
qed

text \<open>
  C6. The table has one record per state for each year of a fixed range of
  years, from \<open>lo\<close> to \<open>hi\<close> with \<open>lo < hi\<close> (2000 to 2023 in the table that
  \<^verbatim>\<open>load_suicide_rates\<close> builds): the series \<open>rows\<close> of the selected state, its
  records sorted by year, has these years. Then the detail stats report: the
  minimum rate with the year of the first row that has it, the maximum rate
  with the year of the first row that has it, the mean of the rates of the
  series, and the largest increase and the largest decrease among the changes
  of a row's rate to the rate of the year before (the first row has no
  change), each with the pair of years it spans and taken at the first row
  that attains it. The changes and the mean are those of the float arithmetic
  \<open>fsub\<close> and \<open>fmean\<close>.
\<close>

theorem update_state_stats_details:
  assumes sel: "s \<noteq> []"
    and rows: "rows = sort_key Year (filter (\<lambda>row. State row = s) df)"
    and years: "map Year rows = [lo..hi]"
    and range: "lo < hi"
  shows "\<exists>st imin imax iinc idec.
     update_state_stats fsub fmean df (Some s) = Inr (Details s st) \<and>
     imin < length rows \<and>
     min_rate st = Rate (rows ! imin) \<and> min_year st = Year (rows ! imin) \<and>
     (\<forall>j<length rows. min_rate st \<le> Rate (rows ! j)) \<and>
     (\<forall>j<imin. min_rate st < Rate (rows ! j)) \<and>
     imax < length rows \<and>
     max_rate st = Rate (rows ! imax) \<and> max_year st = Year (rows ! imax) \<and>
     (\<forall>j<length rows. Rate (rows ! j) \<le> max_rate st) \<and>
     (\<forall>j<imax. Rate (rows ! j) < max_rate st) \<and>
     avg_rate st = fmean (map Rate rows) \<and>
     0 < iinc \<and> iinc < length rows \<and>
     inc_change st = fsub (Rate (rows ! iinc)) (Rate (rows ! (iinc - 1))) \<and>
     inc_to st = Year (rows ! iinc) \<and> inc_from st = Year (rows ! (iinc - 1)) \<and>
     (\<forall>j. 0 < j \<and> j < length rows \<longrightarrow>
           fsub (Rate (rows ! j)) (Rate (rows ! (j - 1))) \<le> inc_change st) \<and>
     (\<forall>j. 0 < j \<and> j < iinc \<longrightarrow>
           fsub (Rate (rows ! j)) (Rate (rows ! (j - 1))) < inc_change st) \<and>
     0 < idec \<and> idec < length rows \<and>
     dec_change st = fsub (Rate (rows ! idec)) (Rate (rows ! (idec - 1))) \<and>
     dec_to st = Year (rows ! idec) \<and> dec_from st = Year (rows ! (idec - 1)) \<and>
     (\<forall>j. 0 < j \<and> j < length rows \<longrightarrow>
           dec_change st \<le> fsub (Rate (rows ! j)) (Rate (rows ! (j - 1)))) \<and>
     (\<forall>j. 0 < j \<and> j < idec \<longrightarrow>
           dec_change st < fsub (Rate (rows ! j)) (Rate (rows ! (j - 1))))"
proof -
  have "length (map Year rows) = length [lo..hi]" by (simp only: years)
  then have len: "length rows = nat (hi - lo + 1)" by simp
  with range have two: "2 \<le> length rows" by simp
  have year: "Year (rows ! k) = lo + int k" if "k < length rows" for k
  proof -
    from that len have "lo + int k \<le> hi" by simp
    then have "[lo..hi] ! k = lo + int k" by (rule nth_upto)
    moreover have "map Year rows ! k = Year (rows ! k)" using that by simp
    ultimately show ?thesis by (simp only: years)
  qed
  have consec: "\<forall>i. Suc i < length rows \<longrightarrow> Year (rows ! Suc i) = Year (rows ! i) + 1"
  proof (intro allI impI)
    fix i assume "Suc i < length rows"
    then have "Year (rows ! Suc i) = lo + int (Suc i)" and "Year (rows ! i) = lo + int i"
      by (simp_all add: year)
    then show "Year (rows ! Suc i) = Year (rows ! i) + 1" by simp
  qed
  from sel rows two consec show ?thesis by (rule update_state_stats_consecutive)
qed

theorem update_state_stats_details_witness:
  "update_state_stats (-) (\<lambda>xs. sum_list xs / real (length xs))
     (\<lparr>State = ''Utah'', Year = 2000, Rate = 20, Region = ''Mountain'', Abbrev = ''UT''\<rparr> #
      map (\<lambda>y. \<lparr>State = ''Ohio'', Year = y,
                  Rate = of_int (10 + ((y - 2000) * 3) mod 7),
                  Region = ''East North Central'', Abbrev = ''OH''\<rparr>) [2000..2023])
     (Some ''Ohio'')
   = Inr (Details ''Ohio''
         \<lparr>min_rate = 10, min_year = 2000, max_rate = 16, max_year = 2002,
           avg_rate = 13,
           inc_change = 3, inc_from = 2000, inc_to = 2001,
           dec_change = - 4, dec_from = 2002, dec_to = 2003\<rparr>)"
proof -
  let ?f = "\<lambda>y. \<lparr>State = ''Ohio'', Year = y,
                  Rate = of_int (10 + ((y - 2000) * 3) mod 7),
                  Region = ''East North Central'', Abbrev = ''OH''\<rparr>"
  let ?rows = "map ?f [2000..2023]"
  let ?df = "\<lparr>State = ''Utah'', Year = 2000, Rate = 20, Region = ''Mountain'',
               Abbrev = ''UT''\<rparr> # ?rows"
  let ?fmean = "\<lambda>xs :: real list. sum_list xs / real (length xs)"
  have h1: "''Ohio'' \<noteq> []" by simp
  have sorted: "sort_key Year ?rows = ?rows"
    by (rule sort_key_id_if_sorted) (simp add: o_def)
  have "filter (\<lambda>row. State row = ''Ohio'') ?df = ?rows"
    by (simp add: filter_map o_def)
  with sorted have h2: "?rows = sort_key Year (filter (\<lambda>row. State row = ''Ohio'') ?df)"
    by (simp only:)
  have h3: "map Year ?rows = [2000..2023]" by (simp add: o_def)
  have h4: "(2000::int) < 2023" by simp
  from update_state_stats_details [OF h1 h2 h3 h4, of "(-)" ?fmean]
  have "\<exists>st. update_state_stats (-) ?fmean ?df (Some ''Ohio'') = Inr (Details ''Ohio'' st)"
    by (elim exE conjE, intro exI)
  then obtain st where
    "update_state_stats (-) ?fmean ?df (Some ''Ohio'') = Inr (Details ''Ohio'' st)" ..
  moreover have "update_state_stats (-) ?fmean ?df (Some ''Ohio'')
    = Inr (Details ''Ohio''
         \<lparr>min_rate = 10, min_year = 2000, max_rate = 16, max_year = 2002,
           avg_rate = 13,
           inc_change = 3, inc_from = 2000, inc_to = 2001,
           dec_change = - 4, dec_from = 2002, dec_to = 2003\<rparr>)"
    by code_simp
  ultimately show ?thesis by simp
qed

end
